theory Spec2Isabelle
  imports Main "HOL-Library.Sublist"
begin

section \<open>Python strings and regular expressions\<close>

text \<open>
  A Python \<open>str\<close> is modelled as a \<open>string\<close>; one \<open>char\<close> stands for one code point, so
  the model covers text whose code points are below 256. \<open>is_space\<close> is the whitespace
  class shared by \<open>str.strip\<close>, \<open>str.lstrip\<close> and the pattern \<open>\s\<close> on \<open>str\<close>
  (\<open>Py_UNICODE_ISSPACE\<close>), restricted to those code points.
\<close>

definition is_space :: "char \<Rightarrow> bool" where
  "is_space c = (c \<in> {CHR 0x09, CHR 0x0A, CHR 0x0B, CHR 0x0C, CHR 0x0D,
                        CHR 0x1C, CHR 0x1D, CHR 0x1E, CHR 0x1F, CHR 0x20,
                        CHR 0x85, CHR 0xA0})"

definition lstrip :: "string \<Rightarrow> string" where
  "lstrip s = dropWhile is_space s"

definition rstrip :: "string \<Rightarrow> string" where
  "rstrip s = rev (dropWhile is_space (rev s))"

definition strip :: "string \<Rightarrow> string" where
  "strip s = rstrip (lstrip s)"

text \<open>
  \<open>s.startswith(p)\<close> is \<open>prefix p s\<close>, \<open>s.endswith(p)\<close> is \<open>suffix p s\<close> and
  \<open>p in s\<close> is \<open>sublist p s\<close>.

  The patterns of the two scripts use single-character classes, literal characters, the
  (greedy or lazy) star of a single-character class, an alternation of literals and the
  anchor \<open>$\<close>. A pattern is a list of such items. \<open>re_match\<close> is \<open>re.match\<close> seen as a
  truth value: some way of matching the items against a prefix of the subject exists, which
  is what the backtracking matcher decides (greedy and lazy stars differ only in which
  match is reported). The anchor \<open>^\<close> at the head of a pattern holds at the position
  where \<open>re.match\<close> starts and is left out. Without the MULTILINE flag \<open>$\<close> holds at the end
  of the subject and just before a newline that ends it; without DOTALL the dot matches
  everything but a newline.
\<close>

datatype atom = Chr char | Dot | Space

datatype item = One atom | Many atom | Alt "string list" | Eol

fun atom_ok :: "atom \<Rightarrow> char \<Rightarrow> bool" where
  "atom_ok (Chr a) c = (c = a)"
| "atom_ok Dot c = (c \<noteq> CHR 0x0A)"
| "atom_ok Space c = is_space c"

fun re_match :: "item list \<Rightarrow> string \<Rightarrow> bool" where
  "re_match [] s = True"
| "re_match (Eol # r) s = ((s = [] \<or> s = [CHR 0x0A]) \<and> re_match r s)"
| "re_match (One a # r) [] = False"
| "re_match (One a # r) (c # cs) = (atom_ok a c \<and> re_match r cs)"
| "re_match (Many a # r) [] = re_match r []"
| "re_match (Many a # r) (c # cs) =
     (re_match r (c # cs) \<or> (atom_ok a c \<and> re_match (Many a # r) cs))"
| "re_match (Alt ps # r) s =
     list_ex (\<lambda>p. prefix p s \<and> re_match r (drop (length p) s)) ps"

fun re_search :: "item list \<Rightarrow> string \<Rightarrow> bool" where
  "re_search r [] = re_match r []"
| "re_search r (c # cs) = (re_match r (c # cs) \<or> re_search r cs)"

definition lit :: "string \<Rightarrow> item list" where
  "lit s = map (\<lambda>c. One (Chr c)) s"


section \<open>remove_commented_lines.py\<close>

definition CLIKE_EXTS :: "string set" where
  "CLIKE_EXTS = {''.dart'', ''.kt'', ''.kts'', ''.java'', ''.swift'', ''.m'', ''.mm'',
                 ''.js'', ''.ts'', ''.tsx'', ''.jsx'', ''.gradle''}"

definition XML_EXTS :: "string set" where
  "XML_EXTS = {''.xml'', ''.plist''}"

definition HASH_EXTS :: "string set" where
  "HASH_EXTS = {''.sh'', ''.yaml'', ''.yml''}"

definition INCLUDED_EXTENSIONS :: "string set" where
  "INCLUDED_EXTENSIONS = {''.dart'', ''.kt'', ''.kts'', ''.java'', ''.swift'', ''.m'', ''.mm'',
                          ''.js'', ''.ts'', ''.tsx'', ''.jsx'', ''.gradle'', ''.xml'',
                          ''.plist'', ''.sh'', ''.yaml'', ''.yml''}"

text \<open>The patterns written inline in \<open>remove_full_line_comments\<close>.\<close>

definition re_block_end :: "item list" where
  \<comment> \<open>\<^verbatim>\<open>r"\*/\s*$"\<close>\<close>
  "re_block_end = lit ''*/'' @ [Many Space, Eol]"

definition re_line_comment :: "item list" where
  \<comment> \<open>\<^verbatim>\<open>r"^\s*//"\<close>\<close>
  "re_line_comment = Many Space # lit ''//''"

definition re_block_start :: "item list" where
  \<comment> \<open>\<^verbatim>\<open>r"^\s*/\*"\<close>\<close>
  "re_block_start = Many Space # lit ''/*''"

definition re_block_one_line :: "item list" where
  \<comment> \<open>\<^verbatim>\<open>r"^\s*/\*.*?\*/\s*$"\<close>\<close>
  "re_block_one_line = Many Space # lit ''/*'' @ Many Dot # lit ''*/'' @ [Many Space, Eol]"

definition re_hash :: "item list" where
  \<comment> \<open>\<^verbatim>\<open>r"^\s*#"\<close>\<close>
  "re_hash = Many Space # lit ''#''"

text \<open>
  The local variables of \<open>remove_full_line_comments\<close>: \<open>result\<close> and \<open>removed\<close> belong to
  the whole function, \<open>in_block\<close> to the C-like and the XML branch. Each \<open>for\<close> loop is the
  left fold of its body over the lines; every \<open>continue\<close> ends the body.
\<close>

record acc =
  result :: "string list"
  removed :: nat

record loop_state = acc +
  in_block :: bool

definition clike_step :: "loop_state \<Rightarrow> string \<Rightarrow> loop_state" where
  "clike_step s line =
     (let stripped = lstrip line in
      if in_block s then
        (let s1 = (if re_search re_block_end stripped \<or> sublist ''*/'' stripped
                   then s\<lparr>in_block := False\<rparr> else s)
         in s1\<lparr>removed := removed s1 + 1\<rparr>)
      else if re_match re_line_comment line then s\<lparr>removed := removed s + 1\<rparr>
      else if re_match re_block_start line then
        (if re_match re_block_one_line line then s\<lparr>removed := removed s + 1\<rparr>
         else s\<lparr>in_block := True, removed := removed s + 1\<rparr>)
      else s\<lparr>result := result s @ [line]\<rparr>)"

definition xml_step :: "loop_state \<Rightarrow> string \<Rightarrow> loop_state" where
  "xml_step s line =
     (let stripped = strip line in
      if in_block s then
        (let s1 = (if sublist ''-->'' stripped then s\<lparr>in_block := False\<rparr> else s)
         in s1\<lparr>removed := removed s1 + 1\<rparr>)
      else if prefix ''<!--'' stripped then
        (if suffix ''-->'' stripped then s\<lparr>removed := removed s + 1\<rparr>
         else s\<lparr>in_block := True, removed := removed s + 1\<rparr>)
      else s\<lparr>result := result s @ [line]\<rparr>)"

definition hash_step :: "acc \<Rightarrow> string \<Rightarrow> acc" where
  "hash_step s line =
     (let stripped = lstrip line in
      if prefix ''#!'' stripped then s\<lparr>result := result s @ [line]\<rparr>
      else if re_match re_hash line then s\<lparr>removed := removed s + 1\<rparr>
      else s\<lparr>result := result s @ [line]\<rparr>)"

definition remove_full_line_comments :: "string list \<Rightarrow> string \<Rightarrow> string list \<times> nat" where
  "remove_full_line_comments lines ext =
     (if ext \<in> CLIKE_EXTS then
        (let s = foldl clike_step \<lparr>result = [], removed = 0, in_block = False\<rparr> lines
         in (result s, removed s))
      else if ext \<in> XML_EXTS then
        (let s = foldl xml_step \<lparr>result = [], removed = 0, in_block = False\<rparr> lines
         in (result s, removed s))
      else if ext \<in> HASH_EXTS then
        (let s = foldl hash_step \<lparr>result = [], removed = 0\<rparr> lines
         in (result s, removed s))
      else (lines, 0))"


definition clike_state_after :: "string list \<Rightarrow> loop_state" where
  \<comment> \<open>the locals of the C-like loop once it has gone through the lines \<open>before\<close>\<close>
  "clike_state_after before =
     foldl clike_step \<lparr>result = [], removed = 0, in_block = False\<rparr> before"

text \<open>
  \<open>process_file\<close> and \<open>main\<close> take the extension of a path as
  \<^verbatim>\<open>os.path.splitext(path)[1].lower()\<close>. \<open>splitext\<close> is the POSIX one: it splits at the
  last dot, if that dot comes after the last \<open>/\<close> and some character between the two is
  not a dot (the loop that skips leading dots). \<open>rfind\<close> is \<open>str.rfind\<close> for one
  character, \<open>lower\<close> is \<open>str.lower\<close> on code points below 256.
\<close>

definition lower_char :: "char \<Rightarrow> char" where
  "lower_char c =
     (let n = (of_char c :: nat)
      in if (65 \<le> n \<and> n \<le> 90) \<or> (192 \<le> n \<and> n \<le> 222 \<and> n \<noteq> 215)
         then char_of (n + 32) else c)"

definition lower :: "string \<Rightarrow> string" where
  "lower s = map lower_char s"

definition rfind :: "char \<Rightarrow> string \<Rightarrow> int" where
  "rfind c s =
     (if c \<in> set s then int (length s) - 1 - int (length (takeWhile (\<lambda>x. x \<noteq> c) (rev s)))
      else - 1)"

definition splitext :: "string \<Rightarrow> string \<times> string" where
  "splitext p =
     (let sepIndex = rfind CHR ''/'' p;
          dotIndex = rfind CHR ''.'' p
      in if dotIndex > sepIndex \<and>
            list_ex (\<lambda>c. c \<noteq> CHR ''.'')
              (take (nat (dotIndex - (sepIndex + 1))) (drop (nat (sepIndex + 1)) p))
         then (take (nat dotIndex) p, drop (nat dotIndex) p)
         else (p, []))"

definition file_ext :: "string \<Rightarrow> string" where
  "file_ext path = lower (snd (splitext path))"

text \<open>
  The script has no classifier of its own: the dialect of an extension is the branch of
  \<open>remove_full_line_comments\<close> that the three membership tests select, in their order.
\<close>

datatype dialect = CLikeBlock | XmlBlock | HashLine | NoDialect

definition dialect_of :: "string \<Rightarrow> dialect" where
  "dialect_of ext =
     (if ext \<in> CLIKE_EXTS then CLikeBlock
      else if ext \<in> XML_EXTS then XmlBlock
      else if ext \<in> HASH_EXTS then HashLine
      else NoDialect)"


section \<open>remove_comments.py\<close>

definition LINE_COMMENT_EXTS :: "string set" where
  "LINE_COMMENT_EXTS = {''.dart'', ''.kt'', ''.java'', ''.swift'', ''.gradle.kts'', ''.gradle'',
                        ''.yaml'', ''.yml'', ''.sh'', ''.properties''}"

definition XML_LIKE_EXTS :: "string set" where
  "XML_LIKE_EXTS = {''.xml'', ''.plist'', ''.html''}"

definition RE_LINE_COMMENT :: "item list" where
  \<comment> \<open>\<^verbatim>\<open>r"^\s*(//|#|!|;).*$"\<close>\<close>
  "RE_LINE_COMMENT = [Many Space, Alt [''//'', ''#'', ''!'', '';''], Many Dot, Eol]"

definition RE_XML_SINGLE_LINE_COMMENT :: "item list" where
  \<comment> \<open>\<^verbatim>\<open>r"^\s*<!--.*-->\s*$"\<close>\<close>
  "RE_XML_SINGLE_LINE_COMMENT =
     Many Space # lit ''<!--'' @ Many Dot # lit ''-->'' @ [Many Space, Eol]"

definition path_suffix :: "string \<Rightarrow> string" where
  \<comment> \<open>\<open>PurePath.suffix\<close>, from the last component \<open>name\<close> of the path\<close>
  "path_suffix name =
     (let i = rfind CHR ''.'' name
      in if 0 < i \<and> i < int (length name) - 1 then drop (nat i) name else [])"

text \<open>
  \<open>process_file\<close> of this script, without the file system: \<open>name\<close> is \<open>path.name\<close> and
  \<open>lines\<close> is \<open>text.splitlines(keepends=True)\<close> of a file that could be read. The value is
  the lines the file holds afterwards (those of the last \<open>write_text\<close>, or the input ones)
  and the flag \<open>changed\<close>.
\<close>

definition process_file_rc :: "string \<Rightarrow> string list \<Rightarrow> string list \<times> bool" where
  "process_file_rc name lines =
     (let ext0 = lower (path_suffix name);
          ext = (if ext0 = [] \<and> suffix ''.gradle.kts'' name then ''.gradle.kts'' else ext0);
          (content, changed) =
            (if ext \<in> LINE_COMMENT_EXTS then
               (let filtered = filter (\<lambda>ln. \<not> re_match RE_LINE_COMMENT ln) lines
                in if filtered \<noteq> lines then (filtered, True) else (lines, False))
             else (lines, False))
      in if ext \<in> XML_LIKE_EXTS then
           (let filtered = filter (\<lambda>ln. \<not> re_match RE_XML_SINGLE_LINE_COMMENT ln) lines;
                removed_any = list_ex (re_match RE_XML_SINGLE_LINE_COMMENT) lines
            in if removed_any then (filtered, True) else (content, changed))
         else (content, changed))"


section \<open>The rule sets in the words of the specification\<close>

text \<open>
  A rule tells, from the block flag before a line and the line, whether the line is
  dropped and what the block flag is afterwards. \<open>run_rules\<close> applies a rule to the lines
  in order, starting from a given flag, and returns the retained lines and the number of
  dropped ones.
\<close>

definition begins_with :: "string \<Rightarrow> string \<Rightarrow> bool" where
  \<comment> \<open>the line, leading whitespace ignored, begins with the marker \<open>p\<close>\<close>
  "begins_with p line = prefix p (lstrip line)"

definition ends_with_closer :: "string \<Rightarrow> bool" where
  \<comment> \<open>the line ends with \<open>*/\<close> followed only by whitespace\<close>
  "ends_with_closer line = suffix ''*/'' (rstrip line)"

definition closes_after_opener :: "string \<Rightarrow> bool" where
  \<comment> \<open>what follows the two characters of the opener ends with \<open>*/\<close> followed only by
      whitespace, and has no newline before the end of that \<open>*/\<close>\<close>
  "closes_after_opener line =
     (let rest = rstrip (drop 2 (lstrip line))
      in suffix ''*/'' rest \<and> CHR 0x0A \<notin> set rest)"

definition clike_rule :: "(string \<Rightarrow> bool) \<Rightarrow> bool \<Rightarrow> string \<Rightarrow> bool \<times> bool" where
  "clike_rule closes inb line =
     (if inb then (True, \<not> sublist ''*/'' line)
      else if begins_with ''//'' line then (True, False)
      else if begins_with ''/*'' line then (True, \<not> closes line)
      else (False, False))"

definition xml_rule :: "bool \<Rightarrow> string \<Rightarrow> bool \<times> bool" where
  "xml_rule inb line =
     (if inb then (True, \<not> sublist ''-->'' line)
      else if prefix ''<!--'' (strip line) then (True, \<not> suffix ''-->'' (strip line))
      else (False, False))"

definition hash_retained :: "string \<Rightarrow> bool" where
  "hash_retained line =
     (if begins_with ''#!'' line then True
      else if begins_with ''#'' line then False
      else True)"

fun run_rules ::
  "(bool \<Rightarrow> string \<Rightarrow> bool \<times> bool) \<Rightarrow> bool \<Rightarrow> string list \<Rightarrow> string list \<times> nat" where
  "run_rules rule inb [] = ([], 0)"
| "run_rules rule inb (l # ls) =
     (case rule inb l of (dropped, inb') \<Rightarrow>
        (case run_rules rule inb' ls of (kept, n) \<Rightarrow>
           if dropped then (kept, Suc n) else (l # kept, n)))"


section \<open>Every line is either kept as it is or counted\<close>

lemma clike_step_cases:
  "(result (clike_step s l) = result s \<and> removed (clike_step s l) = Suc (removed s)) \<or>
   (result (clike_step s l) = result s @ [l] \<and> removed (clike_step s l) = removed s)"
  by (simp add: clike_step_def Let_def)

lemma xml_step_cases:
  "(result (xml_step s l) = result s \<and> removed (xml_step s l) = Suc (removed s)) \<or>
   (result (xml_step s l) = result s @ [l] \<and> removed (xml_step s l) = removed s)"
  by (simp add: xml_step_def Let_def)

lemma hash_step_cases:
  "(result (hash_step s l) = result s \<and> removed (hash_step s l) = Suc (removed s)) \<or>
   (result (hash_step s l) = result s @ [l] \<and> removed (hash_step s l) = removed s)"
  by (simp add: hash_step_def Let_def)

lemma foldl_drop_or_keep:
  fixes f :: "'a acc_scheme \<Rightarrow> string \<Rightarrow> 'a acc_scheme"
  assumes step: "\<And>s l.
    (result (f s l) = result s \<and> removed (f s l) = Suc (removed s)) \<or>
    (result (f s l) = result s @ [l] \<and> removed (f s l) = removed s)"
  shows "\<exists>ks. result (foldl f s ls) = result s @ ks \<and> subseq ks ls \<and>
              removed (foldl f s ls) + length ks = removed s + length ls"
proof (induction ls arbitrary: s)
  case Nil
  show ?case by simp
next
  case (Cons l ls)
  from Cons.IH [of "f s l"] obtain ks where
    ks: "result (foldl f (f s l) ls) = result (f s l) @ ks" "subseq ks ls"
        "removed (foldl f (f s l) ls) + length ks = removed (f s l) + length ls"
    by blast
  from step [of s l] show ?case
  proof
    assume "result (f s l) = result s \<and> removed (f s l) = Suc (removed s)"
    with ks have "result (foldl f s (l # ls)) = result s @ ks \<and> subseq ks (l # ls) \<and>
      removed (foldl f s (l # ls)) + length ks = removed s + length (l # ls)"
      by (simp add: list_emb_Cons)
    then show ?thesis by blast
  next
    assume "result (f s l) = result s @ [l] \<and> removed (f s l) = removed s"
    with ks have "result (foldl f s (l # ls)) = result s @ (l # ks) \<and>
      subseq (l # ks) (l # ls) \<and>
      removed (foldl f s (l # ls)) + length (l # ks) = removed s + length (l # ls)"
      by simp
    then show ?thesis by blast
  qed
qed

lemma engine_drop_or_keep:
  "\<exists>ks. remove_full_line_comments lines ext = (ks, length lines - length ks) \<and>
        subseq ks lines \<and> length ks \<le> length lines"
proof -
  have *: "\<exists>ks. (result (foldl f \<sigma> lines), removed (foldl f \<sigma> lines)) =
                 (ks, length lines - length ks) \<and> subseq ks lines \<and> length ks \<le> length lines"
    if step: "\<And>s l. (result (f s l) = result s \<and> removed (f s l) = Suc (removed s)) \<or>
                      (result (f s l) = result s @ [l] \<and> removed (f s l) = removed s)"
      and init: "result \<sigma> = []" "removed \<sigma> = 0"
    for f :: "'a acc_scheme \<Rightarrow> string \<Rightarrow> 'a acc_scheme" and \<sigma>
  proof -
    from foldl_drop_or_keep [of f \<sigma> lines, OF step] init obtain ks where
      ks: "result (foldl f \<sigma> lines) = ks" "subseq ks lines"
          "removed (foldl f \<sigma> lines) + length ks = length lines"
      by auto
    then have "removed (foldl f \<sigma> lines) = length lines - length ks" "length ks \<le> length lines"
      by arith+
    with ks show ?thesis by simp
  qed
  show ?thesis
    unfolding remove_full_line_comments_def Let_def
    using * [of clike_step, OF clike_step_cases] * [of xml_step, OF xml_step_cases]
      * [of hash_step, OF hash_step_cases]
    by simp
qed


section \<open>What the patterns match\<close>

lemma not_space_markers [simp]:
  "\<not> is_space CHR ''/''" "\<not> is_space CHR ''*''" "\<not> is_space CHR ''#''"
  "\<not> is_space CHR ''<''" "\<not> is_space CHR ''>''" "\<not> is_space CHR ''-''" "\<not> is_space CHR ''!''"
  "is_space CHR 0x0A"
  by (simp_all add: is_space_def)

lemma re_match_lit: "re_match (lit p @ r) s = (prefix p s \<and> re_match r (drop (length p) s))"
proof (induction p arbitrary: s)
  case Nil
  show ?case by (simp add: lit_def)
next
  case (Cons a p)
  from Cons.IH have IH: "\<And>t. re_match (map (\<lambda>c. One (Chr c)) p @ r) t =
      (prefix p t \<and> re_match r (drop (length p) t))"
    by (simp add: lit_def)
  show ?case by (cases s) (auto simp: lit_def IH)
qed

lemma re_match_spaces_then:
  assumes "\<not> is_space a"
  shows "re_match (Many Space # lit (a # p) @ r) s = re_match (lit (a # p) @ r) (lstrip s)"
proof (induction s)
  case Nil
  show ?case by (simp add: lstrip_def)
next
  case (Cons c cs)
  then show ?case using assms by (auto simp: lstrip_def lit_def)
qed

lemma re_match_spaces_eol: "re_match [Many Space, Eol] s = (\<forall>c\<in>set s. is_space c)"
  by (induction s) auto

lemma re_match_dots_closer:
  "re_match (Many Dot # lit ''*/'' @ [Many Space, Eol]) s =
     (\<exists>body ws. s = body @ ''*/'' @ ws \<and> CHR 0x0A \<notin> set body \<and> (\<forall>c\<in>set ws. is_space c))"
proof (induction s)
  case Nil
  show ?case by (simp add: lit_def)
next
  case (Cons c cs)
  note IH = Cons.IH
  have here: "re_match (lit ''*/'' @ [Many Space, Eol]) (c # cs) =
      (\<exists>ws. c # cs = ''*/'' @ ws \<and> (\<forall>c\<in>set ws. is_space c))"
    by (auto simp: re_match_lit re_match_spaces_eol prefix_def)
  show ?case
  proof
    assume "re_match (Many Dot # lit ''*/'' @ [Many Space, Eol]) (c # cs)"
    then consider "re_match (lit ''*/'' @ [Many Space, Eol]) (c # cs)"
      | "c \<noteq> CHR 0x0A" "re_match (Many Dot # lit ''*/'' @ [Many Space, Eol]) cs"
      by auto
    then show "\<exists>body ws. c # cs = body @ ''*/'' @ ws \<and> CHR 0x0A \<notin> set body \<and>
        (\<forall>c\<in>set ws. is_space c)"
    proof cases
      case 1
      with here obtain ws where "c # cs = [] @ ''*/'' @ ws" "\<forall>c\<in>set ws. is_space c" by auto
      then show ?thesis by (metis empty_iff empty_set)
    next
      case 2
      with IH obtain body ws where
        "cs = body @ ''*/'' @ ws" "CHR 0x0A \<notin> set body" "\<forall>c\<in>set ws. is_space c"
        by blast
      with 2 have "c # cs = (c # body) @ ''*/'' @ ws \<and> CHR 0x0A \<notin> set (c # body) \<and>
          (\<forall>c\<in>set ws. is_space c)"
        by simp
      then show ?thesis by blast
    qed
  next
    assume "\<exists>body ws. c # cs = body @ ''*/'' @ ws \<and> CHR 0x0A \<notin> set body \<and>
        (\<forall>c\<in>set ws. is_space c)"
    then obtain body ws where
      b: "c # cs = body @ ''*/'' @ ws" "CHR 0x0A \<notin> set body" "\<forall>c\<in>set ws. is_space c"
      by blast
    show "re_match (Many Dot # lit ''*/'' @ [Many Space, Eol]) (c # cs)"
    proof (cases body)
      case Nil
      with b here have "re_match (lit ''*/'' @ [Many Space, Eol]) (c # cs)" by auto
      then show ?thesis by simp
    next
      case (Cons d body')
      with b have tl: "c \<noteq> CHR 0x0A" "cs = body' @ ''*/'' @ ws" "CHR 0x0A \<notin> set body'"
        by auto
      with b(3) IH have "re_match (Many Dot # lit ''*/'' @ [Many Space, Eol]) cs"
        by blast
      with tl(1) have "c \<noteq> CHR 0x0A" "re_match (Many Dot # lit ''*/'' @ [Many Space, Eol]) cs"
        by simp_all
      then show ?thesis by simp
    qed
  qed
qed

lemma rstrip_append_spaces: "\<forall>c\<in>set ws. is_space c \<Longrightarrow> rstrip (xs @ ws) = rstrip xs"
proof -
  assume "\<forall>c\<in>set ws. is_space c"
  then have "dropWhile is_space (rev ws @ rev xs) = dropWhile is_space (rev xs)"
    by (intro dropWhile_append2) simp
  then show ?thesis by (simp add: rstrip_def)
qed

lemma rstrip_snoc: "\<not> is_space c \<Longrightarrow> rstrip (xs @ [c]) = xs @ [c]"
  by (simp add: rstrip_def)

lemma rstrip_decomp: "\<exists>ws. s = rstrip s @ ws \<and> (\<forall>c\<in>set ws. is_space c)"
proof -
  have "rev s = takeWhile is_space (rev s) @ dropWhile is_space (rev s)" by simp
  then have "s = rev (dropWhile is_space (rev s)) @ rev (takeWhile is_space (rev s))"
    by (metis rev_append rev_rev_ident)
  moreover have "\<forall>c\<in>set (rev (takeWhile is_space (rev s))). is_space c"
    by (auto dest: set_takeWhileD)
  ultimately show ?thesis unfolding rstrip_def by blast
qed

lemma closer_then_spaces_iff:
  "(\<exists>body ws. s = body @ ''*/'' @ ws \<and> CHR 0x0A \<notin> set body \<and> (\<forall>c\<in>set ws. is_space c)) =
   (suffix ''*/'' (rstrip s) \<and> CHR 0x0A \<notin> set (rstrip s))"
proof
  assume "\<exists>body ws. s = body @ ''*/'' @ ws \<and> CHR 0x0A \<notin> set body \<and> (\<forall>c\<in>set ws. is_space c)"
  then obtain body ws where s: "s = (body @ ''*'') @ ''/'' @ ws" and b: "CHR 0x0A \<notin> set body"
    and ws: "\<forall>c\<in>set ws. is_space c"
    by auto
  have "rstrip s = rstrip ((body @ ''*'') @ ''/'')"
    unfolding s using rstrip_append_spaces [OF ws, of "(body @ ''*'') @ ''/''"] by simp
  also have "\<dots> = (body @ ''*'') @ ''/''" by (rule rstrip_snoc) simp
  finally have "rstrip s = body @ ''*/''" by simp
  with b show "suffix ''*/'' (rstrip s) \<and> CHR 0x0A \<notin> set (rstrip s)"
    by (simp add: suffix_def)
next
  assume a: "suffix ''*/'' (rstrip s) \<and> CHR 0x0A \<notin> set (rstrip s)"
  then obtain body where body: "rstrip s = body @ ''*/''" by (auto simp: suffix_def)
  from rstrip_decomp [of s] obtain ws where ws: "s = rstrip s @ ws" "\<forall>c\<in>set ws. is_space c"
    by blast
  from ws body have "s = body @ ''*/'' @ ws" by simp
  moreover from a body have "CHR 0x0A \<notin> set body" by simp
  ultimately show "\<exists>body ws. s = body @ ''*/'' @ ws \<and> CHR 0x0A \<notin> set body \<and>
      (\<forall>c\<in>set ws. is_space c)"
    using ws(2) by blast
qed

lemma re_line_comment_iff: "re_match re_line_comment line = begins_with ''//'' line"
  using re_match_spaces_then [of "CHR ''/''" "''/''" "[]" line] re_match_lit [of "''//''" "[]"]
  by (simp add: re_line_comment_def begins_with_def)

lemma re_block_start_iff: "re_match re_block_start line = begins_with ''/*'' line"
  using re_match_spaces_then [of "CHR ''/''" "''*''" "[]" line] re_match_lit [of "''/*''" "[]"]
  by (simp add: re_block_start_def begins_with_def)

lemma re_hash_iff: "re_match re_hash line = begins_with ''#'' line"
  using re_match_spaces_then [of "CHR ''#''" "[]" "[]" line] re_match_lit [of "''#''" "[]"]
  by (simp add: re_hash_def begins_with_def)

lemma re_block_one_line_iff:
  "re_match re_block_one_line line = (begins_with ''/*'' line \<and> closes_after_opener line)"
proof -
  let ?r = "Many Dot # lit ''*/'' @ [Many Space, Eol]"
  have "re_match re_block_one_line line = re_match (lit ''/*'' @ ?r) (lstrip line)"
    unfolding re_block_one_line_def
    using re_match_spaces_then [of "CHR ''/''" "''*''" ?r line] by simp
  also have "\<dots> = (prefix ''/*'' (lstrip line) \<and> re_match ?r (drop 2 (lstrip line)))"
    by (simp add: re_match_lit numeral_2_eq_2)
  also have "re_match ?r (drop 2 (lstrip line)) = closes_after_opener line"
    unfolding re_match_dots_closer closer_then_spaces_iff closes_after_opener_def Let_def ..
  finally show ?thesis by (simp add: begins_with_def)
qed


section \<open>The loops and the rule sets\<close>

lemma sublist_lstrip:
  assumes "\<not> is_space a"
  shows "sublist (a # p) (lstrip s) = sublist (a # p) s"
proof (induction s)
  case Nil
  show ?case by (simp add: lstrip_def)
next
  case (Cons c cs)
  then show ?case using assms by (auto simp: lstrip_def sublist_Cons_right)
qed

lemma sublist_rstrip:
  assumes "\<not> is_space a"
  shows "sublist (p @ [a]) (rstrip s) = sublist (p @ [a]) s"
proof -
  have "sublist (p @ [a]) (rstrip s) = sublist (a # rev p) (lstrip (rev s))"
    using sublist_rev [of "p @ [a]" "rstrip s"] by (simp add: rstrip_def lstrip_def)
  also have "\<dots> = sublist (a # rev p) (rev s)" by (rule sublist_lstrip [OF assms])
  also have "\<dots> = sublist (p @ [a]) s" using sublist_rev [of "p @ [a]" s] by simp
  finally show ?thesis .
qed

lemma re_search_block_end: "re_search re_block_end s \<Longrightarrow> sublist ''*/'' s"
proof (induction s)
  case Nil
  then show ?case by (simp add: re_block_end_def re_match_lit)
next
  case (Cons c cs)
  from Cons.prems consider "re_match re_block_end (c # cs)" | "re_search re_block_end cs" by auto
  then show ?case
  proof cases
    case 1
    then have "prefix ''*/'' (c # cs)" by (simp add: re_block_end_def re_match_lit)
    then show ?thesis by (rule prefix_imp_sublist)
  next
    case 2
    with Cons.IH show ?thesis by (simp add: sublist_Cons_right)
  qed
qed

lemma block_end_iff:
  "(re_search re_block_end (lstrip line) \<or> sublist ''*/'' (lstrip line)) = sublist ''*/'' line"
  using re_search_block_end [of "lstrip line"] sublist_lstrip [of "CHR ''*''" "''/''" line]
  by auto

lemma sublist_strip_arrow: "sublist ''-->'' (strip line) = sublist ''-->'' line"
  using sublist_rstrip [of "CHR ''>''" "''--''" "lstrip line"]
    sublist_lstrip [of "CHR ''-''" "''->''" line]
  by (simp add: strip_def)

lemma clike_step_rule:
  "clike_step s l =
     (case clike_rule closes_after_opener (in_block s) l of (dropped, b) \<Rightarrow>
        if dropped then s\<lparr>removed := Suc (removed s), in_block := b\<rparr>
        else s\<lparr>result := result s @ [l], in_block := b\<rparr>)"
  by (simp add: clike_step_def clike_rule_def Let_def block_end_iff re_line_comment_iff
      re_block_start_iff re_block_one_line_iff)

lemma xml_step_rule:
  "xml_step s l =
     (case xml_rule (in_block s) l of (dropped, b) \<Rightarrow>
        if dropped then s\<lparr>removed := Suc (removed s), in_block := b\<rparr>
        else s\<lparr>result := result s @ [l], in_block := b\<rparr>)"
  by (simp add: xml_step_def xml_rule_def Let_def sublist_strip_arrow)

lemma foldl_run_rules:
  assumes step: "\<And>s l. f s l =
     (case rule (in_block s) l of (dropped, b) \<Rightarrow>
        if dropped then s\<lparr>removed := Suc (removed s), in_block := b\<rparr>
        else s\<lparr>result := result s @ [l], in_block := b\<rparr>)"
  shows "(result (foldl f s ls), removed (foldl f s ls)) =
     (case run_rules rule (in_block s) ls of (kept, n) \<Rightarrow> (result s @ kept, removed s + n))"
proof (induction ls arbitrary: s)
  case Nil
  show ?case by simp
next
  case (Cons l ls)
  show ?case
    using Cons.IH [of "f s l"] by (simp add: step split: prod.splits if_splits)
qed

lemma clike_engine:
  "ext \<in> CLIKE_EXTS \<Longrightarrow>
   remove_full_line_comments lines ext = run_rules (clike_rule closes_after_opener) False lines"
  using foldl_run_rules [of clike_step "clike_rule closes_after_opener", OF clike_step_rule,
      of "\<lparr>result = [], removed = 0, in_block = False\<rparr>" lines]
  by (simp add: remove_full_line_comments_def Let_def split: prod.splits)

lemma included_extensions: "INCLUDED_EXTENSIONS = CLIKE_EXTS \<union> XML_EXTS \<union> HASH_EXTS"
  by (auto simp: INCLUDED_EXTENSIONS_def CLIKE_EXTS_def XML_EXTS_def HASH_EXTS_def)

lemma exts_disjoint:
  "ext \<in> XML_EXTS \<Longrightarrow> ext \<notin> CLIKE_EXTS"
  "ext \<in> HASH_EXTS \<Longrightarrow> ext \<notin> CLIKE_EXTS"
  "ext \<in> HASH_EXTS \<Longrightarrow> ext \<notin> XML_EXTS"
  by (auto simp: CLIKE_EXTS_def XML_EXTS_def HASH_EXTS_def)

lemma xml_engine:
  "ext \<in> XML_EXTS \<Longrightarrow> remove_full_line_comments lines ext = run_rules xml_rule False lines"
  using foldl_run_rules [of xml_step xml_rule, OF xml_step_rule,
      of "\<lparr>result = [], removed = 0, in_block = False\<rparr>" lines]
  by (simp add: remove_full_line_comments_def Let_def exts_disjoint split: prod.splits)

lemmas eval_simps = remove_full_line_comments_def CLIKE_EXTS_def XML_EXTS_def HASH_EXTS_def
  clike_step_def xml_step_def hash_step_def Let_def lstrip_def rstrip_def strip_def
  re_block_end_def re_line_comment_def re_block_start_def re_block_one_line_def re_hash_def
  lit_def is_space_def sublist_Cons_right suffix_to_prefix

lemma hash_step_rule:
  "hash_step s l =
     (if hash_retained l then s\<lparr>result := result s @ [l]\<rparr> else s\<lparr>removed := Suc (removed s)\<rparr>)"
  by (simp add: hash_step_def hash_retained_def Let_def re_hash_iff begins_with_def)

lemma hash_fold:
  "foldl hash_step s ls =
     s\<lparr>result := result s @ filter hash_retained ls,
       removed := removed s + length (filter (\<lambda>l. \<not> hash_retained l) ls)\<rparr>"
  by (induction ls arbitrary: s) (simp_all add: hash_step_rule)

lemma hash_engine:
  "ext \<in> HASH_EXTS \<Longrightarrow>
   remove_full_line_comments lines ext =
     (filter hash_retained lines, length (filter (\<lambda>l. \<not> hash_retained l) lines))"
  by (simp add: remove_full_line_comments_def Let_def exts_disjoint hash_fold)

lemma run_rules_kept:
  assumes inside: "\<And>l. fst (rule True l)"
    and quiet: "\<And>l. \<not> fst (rule False l) \<Longrightarrow> \<not> snd (rule False l)"
  shows "\<forall>k\<in>set (fst (run_rules rule b ls)). rule False k = (False, False)"
proof (induction ls arbitrary: b)
  case Nil
  show ?case by simp
next
  case (Cons l ls)
  obtain dropped b' where r: "rule b l = (dropped, b')" by (cases "rule b l")
  obtain kept n where k: "run_rules rule b' ls = (kept, n)" by (cases "run_rules rule b' ls")
  from Cons.IH [of b'] k have IH: "\<forall>k\<in>set kept. rule False k = (False, False)" by simp
  show ?case
  proof (cases dropped)
    case True
    with r k IH show ?thesis by simp
  next
    case False
    with r inside [of l] have "\<not> b" by (cases b) auto
    with r False quiet [of l] have "rule False l = (False, False)" by simp
    with r k IH False show ?thesis by simp
  qed
qed

lemma run_rules_all_kept:
  "\<forall>k\<in>set ks. rule False k = (False, False) \<Longrightarrow> run_rules rule False ks = (ks, 0)"
  by (induction ks) simp_all

lemma run_rules_idem:
  assumes inside: "\<And>l. fst (rule True l)"
    and quiet: "\<And>l. \<not> fst (rule False l) \<Longrightarrow> \<not> snd (rule False l)"
  shows "run_rules rule False (fst (run_rules rule False ls)) = (fst (run_rules rule False ls), 0)"
  by (rule run_rules_all_kept) (rule run_rules_kept [OF inside quiet])


section \<open>Extensions of paths\<close>

lemma lower_kts: "lower ''.kts'' = ''.kts''"
  by (simp add: lower_def lower_char_def)

lemma rfind_dot: "rfind CHR ''.'' (q @ ''.gradle.kts'') = int (length q) + 7"
  by (simp add: rfind_def)

lemma rfind_sep: "rfind CHR ''/'' (q @ ''.gradle.kts'') = rfind CHR ''/'' q"
proof (cases "CHR ''/'' \<in> set q")
  case False
  then show ?thesis by (simp add: rfind_def)
next
  case True
  have "takeWhile (\<lambda>x. x \<noteq> CHR ''/'') (rev ''.gradle.kts'' @ rev q) =
        rev ''.gradle.kts'' @ takeWhile (\<lambda>x. x \<noteq> CHR ''/'') (rev q)"
    by (rule takeWhile_append2) auto
  with True show ?thesis by (simp add: rfind_def)
qed

lemma takeWhile_shorter: "c \<in> set xs \<Longrightarrow> length (takeWhile (\<lambda>x. x \<noteq> c) xs) < length xs"
  by (induction xs) auto

lemma rfind_bounds: "- 1 \<le> rfind c s \<and> rfind c s < int (length s)"
proof (cases "c \<in> set s")
  case False
  then show ?thesis by (simp add: rfind_def)
next
  case True
  then have "length (takeWhile (\<lambda>x. x \<noteq> c) (rev s)) < length (rev s)"
    by (intro takeWhile_shorter) simp
  with True show ?thesis by (simp add: rfind_def)
qed

lemma splitext_gradle_kts: "snd (splitext (q @ ''.gradle.kts'')) = ''.kts''"
proof -
  let ?p = "q @ ''.gradle.kts''"
  define m where "m = nat (rfind CHR ''/'' q + 1)"
  from rfind_bounds [of "CHR ''/''" q] have m: "m \<le> length q" "int m = rfind CHR ''/'' q + 1"
    unfolding m_def by linarith+
  have dot: "rfind CHR ''.'' ?p = int (length q) + 7" by (rule rfind_dot)
  have sep: "rfind CHR ''/'' ?p = int m - 1" unfolding rfind_sep using m(2) by linarith
  have "take (length q + 7 - m) (drop m ?p) = drop m q @ ''.gradle''"
    using m by simp
  then have ex: "list_ex (\<lambda>c. c \<noteq> CHR ''.'') (take (length q + 7 - m) (drop m ?p))"
    by simp
  have n1: "nat (rfind CHR ''.'' ?p - (rfind CHR ''/'' ?p + 1)) = length q + 7 - m"
    unfolding dot sep using m(1) by simp
  have n2: "nat (rfind CHR ''/'' ?p + 1) = m" unfolding sep by simp
  have n3: "nat (rfind CHR ''.'' ?p) = length q + 7" unfolding dot by simp
  have n4: "rfind CHR ''.'' ?p > rfind CHR ''/'' ?p" unfolding dot sep using m(1) by simp
  have "splitext ?p = (take (length q + 7) ?p, drop (length q + 7) ?p)"
    unfolding splitext_def Let_def n1 n2 n3 using n4 ex by (simp only: simp_thms if_True)
  then show ?thesis by simp
qed


lemma path_suffix_gradle_kts: "path_suffix (q @ ''.gradle.kts'') = ''.kts''"
proof -
  have "nat (int (length q) + 7) = length q + 7" by simp
  then show ?thesis by (simp add: path_suffix_def rfind_dot)
qed

text \<open>
  In \<open>remove_comments.py\<close> the branch for \<open>.gradle.kts\<close> is taken only when the suffix is
  empty, and the suffix of such a name is \<open>.kts\<close>, which is in neither table of that
  script: it leaves these files as they are.
\<close>

lemma process_file_rc_gradle_kts:
  assumes "suffix ''.gradle.kts'' name"
  shows "process_file_rc name lines = (lines, False)"
proof -
  from assms obtain q where "name = q @ ''.gradle.kts''" by (auto simp: suffix_def)
  then have "lower (path_suffix name) = ''.kts''"
    by (simp only: path_suffix_gradle_kts lower_kts)
  then show ?thesis
    by (simp add: process_file_rc_def LINE_COMMENT_EXTS_def XML_LIKE_EXTS_def)
qed

lemma gradle_kts_branch_dead:
  "\<not> (lower (path_suffix name) = [] \<and> suffix ''.gradle.kts'' name)"
proof
  assume a: "lower (path_suffix name) = [] \<and> suffix ''.gradle.kts'' name"
  then obtain q where "name = q @ ''.gradle.kts''" by (auto simp: suffix_def)
  then have "lower (path_suffix name) = ''.kts''"
    by (simp only: path_suffix_gradle_kts lower_kts)
  with a show False by simp
qed

lemma engine_by_dialect:
  "remove_full_line_comments lines ext =
     (case dialect_of ext of
        CLikeBlock \<Rightarrow> run_rules (clike_rule closes_after_opener) False lines
      | XmlBlock \<Rightarrow> run_rules xml_rule False lines
      | HashLine \<Rightarrow>
          (filter hash_retained lines, length (filter (\<lambda>l. \<not> hash_retained l) lines))
      | NoDialect \<Rightarrow> (lines, 0))"
  using clike_engine [of ext lines] xml_engine [of ext lines] hash_engine [of ext lines]
    exts_disjoint [of ext]
  by (auto simp: dialect_of_def remove_full_line_comments_def)

text \<open>
  The tables of \<open>remove_commented_lines.py\<close>: the dialect of an extension is C-like for
  \<open>.dart\<close>, \<open>.kt\<close>, \<open>.kts\<close>, \<open>.java\<close>, \<open>.swift\<close>, \<open>.m\<close>, \<open>.mm\<close>, \<open>.js\<close>, \<open>.ts\<close>,
  \<open>.tsx\<close>, \<open>.jsx\<close>, \<open>.gradle\<close>; XML for \<open>.xml\<close> and \<open>.plist\<close>; hash for \<open>.sh\<close>,
  \<open>.yaml\<close> and \<open>.yml\<close>. This script has no entry for \<open>.gradle.kts\<close>: a path that ends
  so is C-like through its last segment \<open>.kts\<close>.
\<close>

lemma dialect_table:
  "(dialect_of ext = CLikeBlock \<longleftrightarrow>
      ext \<in> {''.dart'', ''.kt'', ''.kts'', ''.java'', ''.swift'', ''.m'', ''.mm'', ''.js'', ''.ts'',
             ''.tsx'', ''.jsx'', ''.gradle''}) \<and>
   (dialect_of ext = XmlBlock \<longleftrightarrow> ext \<in> {''.xml'', ''.plist''}) \<and>
   (dialect_of ext = HashLine \<longleftrightarrow> ext \<in> {''.sh'', ''.yaml'', ''.yml''}) \<and>
   (suffix ''.gradle.kts'' path \<longrightarrow> dialect_of (file_ext path) = CLikeBlock)"
proof -
  have table: "dialect_of ext = CLikeBlock \<longleftrightarrow> ext \<in> CLIKE_EXTS"
    "dialect_of ext = XmlBlock \<longleftrightarrow> ext \<in> XML_EXTS"
    "dialect_of ext = HashLine \<longleftrightarrow> ext \<in> HASH_EXTS"
    using exts_disjoint [of ext] by (auto simp: dialect_of_def)
  have "dialect_of (file_ext path) = CLikeBlock" if "suffix ''.gradle.kts'' path"
  proof -
    from that obtain q where "path = q @ ''.gradle.kts''" by (auto simp: suffix_def)
    then have "file_ext path = ''.kts''"
      by (simp only: file_ext_def splitext_gradle_kts lower_kts)
    then show ?thesis by (simp add: dialect_of_def CLIKE_EXTS_def)
  qed
  with table show ?thesis
    by (simp only: CLIKE_EXTS_def XML_EXTS_def HASH_EXTS_def) blast
qed

lemma dialect_table_example:
  "suffix ''.gradle.kts'' ''android/settings.gradle.kts'' \<and>
   dialect_of (file_ext ''android/settings.gradle.kts'') = CLikeBlock \<and>
   dialect_of ''.plist'' = XmlBlock \<and> dialect_of ''.yml'' = HashLine"
proof -
  have h: "suffix ''.gradle.kts'' ''android/settings.gradle.kts''"
    by (simp add: suffix_to_prefix)
  from dialect_table [of "''.plist''" "''android/settings.gradle.kts''"]
    dialect_table [of "''.yml''" "''android/settings.gradle.kts''"] h
  show ?thesis by simp
qed


section \<open>Claims\<close>

text \<open>
  C2. For every list of lines and every extension, the number of lines returned by
  \<open>remove_full_line_comments\<close> plus the removed count it returns is the number of input
  lines.
\<close>

theorem retained_plus_removed:
  "length (fst (remove_full_line_comments lines ext)) +
   snd (remove_full_line_comments lines ext) = length lines"
proof -
  from engine_drop_or_keep [of lines ext] obtain ks where
    "remove_full_line_comments lines ext = (ks, length lines - length ks)"
    "length ks \<le> length lines"
    by blast
  then show ?thesis by simp
qed

text \<open>
  C6. For every input and every extension, the retained lines are a subsequence of the
  input lines: each of them is one of the input lines, unaltered, and they come in the
  order of the input.
\<close>

theorem retained_subseq:
  "subseq (fst (remove_full_line_comments lines ext)) lines \<and>
   set (fst (remove_full_line_comments lines ext)) \<subseteq> set lines"
proof -
  from engine_drop_or_keep [of lines ext] obtain ks where
    "remove_full_line_comments lines ext = (ks, length lines - length ks)" "subseq ks lines"
    by blast
  then show ?thesis by (auto elim: list_emb_set)
qed

text \<open>
  C8. For every extension outside the three recognised sets, \<open>remove_full_line_comments\<close>
  returns the input lines unchanged with a removed count of 0. The function has no
  failing branch: it is total on every list of lines and every extension.
\<close>

theorem unknown_ext_passthrough:
  "ext \<notin> CLIKE_EXTS \<Longrightarrow> ext \<notin> XML_EXTS \<Longrightarrow> ext \<notin> HASH_EXTS \<Longrightarrow>
   remove_full_line_comments lines ext = (lines, 0)"
  by (simp add: remove_full_line_comments_def)

theorem unknown_ext_passthrough_witness:
  "''.txt'' \<notin> CLIKE_EXTS \<and> ''.txt'' \<notin> XML_EXTS \<and> ''.txt'' \<notin> HASH_EXTS \<and>
   remove_full_line_comments [''// a'', ''# b'', ''<!-- c -->''] ''.txt'' =
     ([''// a'', ''# b'', ''<!-- c -->''], 0)"
proof -
  have h: "''.txt'' \<notin> CLIKE_EXTS" "''.txt'' \<notin> XML_EXTS" "''.txt'' \<notin> HASH_EXTS"
    by (simp_all add: CLIKE_EXTS_def XML_EXTS_def HASH_EXTS_def)
  from h unknown_ext_passthrough [OF h, of "[''// a'', ''# b'', ''<!-- c -->'']"]
  show ?thesis by simp
qed

text \<open>
  C3. The engine is idempotent: for every list of lines and every extension, running
  \<open>remove_full_line_comments\<close> on its own retained lines, with the same extension,
  returns them unchanged with a removed count of 0.
\<close>

theorem engine_idempotent:
  "remove_full_line_comments (fst (remove_full_line_comments lines ext)) ext =
     (fst (remove_full_line_comments lines ext), 0)"
proof -
  consider "ext \<in> CLIKE_EXTS" | "ext \<in> XML_EXTS" | "ext \<in> HASH_EXTS"
    | "ext \<notin> CLIKE_EXTS" "ext \<notin> XML_EXTS" "ext \<notin> HASH_EXTS"
    by blast
  then show ?thesis
  proof cases
    case 1
    have "run_rules (clike_rule closes_after_opener) False
            (fst (run_rules (clike_rule closes_after_opener) False lines)) =
          (fst (run_rules (clike_rule closes_after_opener) False lines), 0)"
      by (rule run_rules_idem) (auto simp: clike_rule_def split: if_splits)
    with 1 show ?thesis by (simp add: clike_engine)
  next
    case 2
    have "run_rules xml_rule False (fst (run_rules xml_rule False lines)) =
          (fst (run_rules xml_rule False lines), 0)"
      by (rule run_rules_idem) (auto simp: xml_rule_def split: if_splits)
    with 2 show ?thesis by (simp add: xml_engine)
  next
    case 3
    then show ?thesis by (simp add: hash_engine)
  next
    case 4
    then show ?thesis by (simp add: remove_full_line_comments_def)
  qed
qed

text \<open>
  C1. For every list of lines and every extension of the C-like set,
  \<open>remove_full_line_comments\<close> follows the ordered rules: inside a block the line is
  removed, and the block ends exactly when the line contains \<open>*/\<close>; otherwise a line
  that begins, after leading whitespace, with \<open>//\<close> is removed; otherwise a line that
  begins with \<open>/*\<close> is removed, and a block is open afterwards unless what follows the
  opener on that line ends with \<open>*/\<close> followed only by whitespace, with no newline before
  that closer; every other line is retained. The lines \<open>a();\<close>, \<open>/* start\<close>,
  \<open>middle\<close>, \<open>end */\<close>, \<open>b();\<close> give \<open>a();\<close> and \<open>b();\<close> with a removed count of 3.
\<close>

theorem clike_rule_set:
  "ext \<in> CLIKE_EXTS \<Longrightarrow>
   remove_full_line_comments lines ext = run_rules (clike_rule closes_after_opener) False lines"
  using foldl_run_rules [of clike_step "clike_rule closes_after_opener", OF clike_step_rule,
      of "\<lparr>result = [], removed = 0, in_block = False\<rparr>" lines]
  by (simp add: remove_full_line_comments_def Let_def split: prod.splits)

theorem clike_rule_set_witness:
  "''.dart'' \<in> CLIKE_EXTS \<and>
   remove_full_line_comments
     [''a();\<newline>'', ''/* start\<newline>'', '' middle\<newline>'', '' end */\<newline>'', ''b();'']
     ''.dart'' = ([''a();\<newline>'', ''b();''], 3) \<and>
   run_rules (clike_rule closes_after_opener) False
     [''a();\<newline>'', ''/* start\<newline>'', '' middle\<newline>'', '' end */\<newline>'', ''b();''] =
     ([''a();\<newline>'', ''b();''], 3)"
proof -
  have h: "''.dart'' \<in> CLIKE_EXTS" by (simp add: CLIKE_EXTS_def)
  have e: "remove_full_line_comments
     [''a();\<newline>'', ''/* start\<newline>'', '' middle\<newline>'', '' end */\<newline>'', ''b();'']
     ''.dart'' = ([''a();\<newline>'', ''b();''], 3)"
    by (simp add: eval_simps)
  from clike_rule_set [OF h,
      of "[''a();\<newline>'', ''/* start\<newline>'', '' middle\<newline>'', '' end */\<newline>'', ''b();'']"]
    h e
  show ?thesis by simp
qed

text \<open>
  With the closer of an opener line taken as "the line ends with \<open>*/\<close> followed only by
  whitespace", the rules and the code part on the line \<open>/*/\<close>: its last two characters
  are \<open>*/\<close>, but the pattern of the code wants the closer after the two characters of the
  opener, so the code opens a block there and drops the next line.
\<close>

theorem clike_closer_overlap_counterexample:
  "''.java'' \<in> CLIKE_EXTS \<and>
   remove_full_line_comments [''/*/\<newline>'', ''x();\<newline>''] ''.java'' = ([], 2) \<and>
   run_rules (clike_rule ends_with_closer) False [''/*/\<newline>'', ''x();\<newline>''] =
     ([''x();\<newline>''], 1)"
  by (simp add: clike_rule_def ends_with_closer_def begins_with_def eval_simps)

text \<open>
  C4. For every list of lines and every extension of the XML set, the engine removes a
  line while \<open>in_block\<close> is true, clearing \<open>in_block\<close> exactly when the line contains
  \<open>-->\<close>; it removes a line whose trimmed content starts with \<open><!--\<close>, leaving
  \<open>in_block\<close> false when the trimmed content also ends with \<open>-->\<close> and setting it
  otherwise; it retains every other line. The lines \<open><!-- note -->\<close>, \<open><tag/>\<close> give
  \<open><tag/>\<close> with a removed count of 1.
\<close>

theorem xml_rule_set:
  "ext \<in> XML_EXTS \<Longrightarrow> remove_full_line_comments lines ext = run_rules xml_rule False lines"
  using foldl_run_rules [of xml_step xml_rule, OF xml_step_rule,
      of "\<lparr>result = [], removed = 0, in_block = False\<rparr>" lines]
  by (simp add: remove_full_line_comments_def Let_def exts_disjoint split: prod.splits)

theorem xml_rule_set_witness:
  "''.xml'' \<in> XML_EXTS \<and>
   remove_full_line_comments [''<!-- note -->\<newline>'', ''<tag/>''] ''.xml'' = ([''<tag/>''], 1) \<and>
   run_rules xml_rule False [''<!-- note -->\<newline>'', ''<tag/>''] = ([''<tag/>''], 1)"
proof -
  have h: "''.xml'' \<in> XML_EXTS" by (simp add: XML_EXTS_def)
  have e: "remove_full_line_comments [''<!-- note -->\<newline>'', ''<tag/>''] ''.xml'' =
      ([''<tag/>''], 1)"
    by (simp add: eval_simps)
  from xml_rule_set [OF h, of "[''<!-- note -->\<newline>'', ''<tag/>'']"] h e
  show ?thesis by simp
qed

text \<open>
  C5. For every list of lines and every extension of the hash set, a line that starts,
  after leading whitespace, with \<open>#!\<close> is retained; otherwise a line that starts, after
  leading whitespace, with \<open>#\<close> is removed; every other line is retained; the retained
  lines are the input lines themselves. A first line that starts with \<open>#!/bin/sh\<close> is
  the first retained line.
\<close>

theorem hash_rule_set:
  "ext \<in> HASH_EXTS \<Longrightarrow>
   remove_full_line_comments lines ext =
     (filter hash_retained lines, length (filter (\<lambda>l. \<not> hash_retained l) lines)) \<and>
   (prefix ''#!/bin/sh'' l \<longrightarrow>
      fst (remove_full_line_comments (l # lines) ext) =
        l # fst (remove_full_line_comments lines ext))"
proof -
  assume h: "ext \<in> HASH_EXTS"
  have "prefix ''#!/bin/sh'' l \<Longrightarrow> hash_retained l"
    by (auto simp: hash_retained_def begins_with_def lstrip_def prefix_def)
  with h show ?thesis by (auto simp: hash_engine)
qed

theorem hash_rule_set_witness:
  "''.sh'' \<in> HASH_EXTS \<and> prefix ''#!/bin/sh'' ''#!/bin/sh\<newline>'' \<and>
   remove_full_line_comments
     [''# comment\<newline>'', ''key: value\<newline>'', ''  # indented comment\<newline>'', ''  #!x''] ''.sh'' =
     ([''key: value\<newline>'', ''  #!x''], 2) \<and>
   fst (remove_full_line_comments
     [''#!/bin/sh\<newline>'', ''# comment\<newline>'', ''key: value\<newline>'',
      ''  # indented comment\<newline>'', ''  #!x''] ''.sh'') =
     [''#!/bin/sh\<newline>'', ''key: value\<newline>'', ''  #!x'']"
proof -
  have h: "''.sh'' \<in> HASH_EXTS" by (simp add: HASH_EXTS_def)
  have p: "prefix ''#!/bin/sh'' ''#!/bin/sh\<newline>''" by simp
  have k: "filter hash_retained
      [''# comment\<newline>'', ''key: value\<newline>'', ''  # indented comment\<newline>'', ''  #!x''] =
      [''key: value\<newline>'', ''  #!x'']"
    "length (filter (\<lambda>l. \<not> hash_retained l)
      [''# comment\<newline>'', ''key: value\<newline>'', ''  # indented comment\<newline>'', ''  #!x'']) = 2"
    by (simp_all add: hash_retained_def begins_with_def lstrip_def is_space_def)
  from hash_rule_set [OF h, of
      "[''# comment\<newline>'', ''key: value\<newline>'', ''  # indented comment\<newline>'', ''  #!x'']"
      "''#!/bin/sh\<newline>''"] h p k
  show ?thesis by simp
qed

text \<open>
  C7. The dialect tables of the specification are those of \<open>remove_commented_lines.py\<close>
  (lemma \<open>dialect_table\<close>). The two-segment exception for \<open>.gradle.kts\<close> is in
  \<open>process_file\<close> of \<open>remove_comments.py\<close>, whose table \<open>LINE_COMMENT_EXTS\<close> lists
  \<open>.gradle.kts\<close>, and there it is never taken: the suffix of \<open>build.gradle.kts\<close> is
  \<open>.kts\<close>, not empty, and \<open>.kts\<close> is in neither table of that script. So the file gets
  no dialect: a comment line that is dropped from \<open>build.gradle\<close> stays in
  \<open>build.gradle.kts\<close>.
\<close>

theorem gradle_kts_exception_not_taken:
  "suffix ''.gradle.kts'' ''build.gradle.kts'' \<and> ''.gradle.kts'' \<in> LINE_COMMENT_EXTS \<and>
   lower (path_suffix ''build.gradle.kts'') = ''.kts'' \<and>
   ''.kts'' \<notin> LINE_COMMENT_EXTS \<and> ''.kts'' \<notin> XML_LIKE_EXTS \<and>
   process_file_rc ''build.gradle.kts'' [''// note\<newline>'', ''plugins {}\<newline>''] =
     ([''// note\<newline>'', ''plugins {}\<newline>''], False) \<and>
   process_file_rc ''build.gradle'' [''// note\<newline>'', ''plugins {}\<newline>''] =
     ([''plugins {}\<newline>''], True)"
proof -
  have s: "suffix ''.gradle.kts'' ''build.gradle.kts''" by (simp add: suffix_to_prefix)
  have t: "''.gradle.kts'' \<in> LINE_COMMENT_EXTS" "''.kts'' \<notin> LINE_COMMENT_EXTS"
    "''.kts'' \<notin> XML_LIKE_EXTS"
    by (simp_all add: LINE_COMMENT_EXTS_def XML_LIKE_EXTS_def)
  have e: "lower (path_suffix ''build.gradle.kts'') = ''.kts''"
    using path_suffix_gradle_kts [of "''build''"] by (simp add: lower_kts)
  have g: "lower (path_suffix ''build.gradle'') = ''.gradle''"
    by (simp add: path_suffix_def rfind_def lower_def lower_char_def)
  have k: "process_file_rc ''build.gradle.kts'' [''// note\<newline>'', ''plugins {}\<newline>''] =
     ([''// note\<newline>'', ''plugins {}\<newline>''], False)"
    by (rule process_file_rc_gradle_kts [OF s])
  have r: "process_file_rc ''build.gradle'' [''// note\<newline>'', ''plugins {}\<newline>''] =
     ([''plugins {}\<newline>''], True)"
    using g
    by (simp add: process_file_rc_def LINE_COMMENT_EXTS_def XML_LIKE_EXTS_def
        RE_LINE_COMMENT_def is_space_def suffix_to_prefix)
  from s t e k r show ?thesis by simp
qed

text \<open>
  C9. The two scripts do not strip the same lines: on the XML block comment opened by
  \<open><!--\<close> on one line and closed by \<open>-->\<close> two lines later,
  \<open>remove_full_line_comments\<close> removes the three lines, and \<open>process_file\<close> of
  \<open>remove_comments.py\<close>, which matches one line at a time, keeps them all and changes
  nothing.
\<close>

theorem xml_engines_differ:
  "remove_full_line_comments [''<!--\<newline>'', ''  note\<newline>'', ''-->\<newline>''] ''.xml'' = ([], 3) \<and>
   process_file_rc ''strings.xml'' [''<!--\<newline>'', ''  note\<newline>'', ''-->\<newline>''] =
     ([''<!--\<newline>'', ''  note\<newline>'', ''-->\<newline>''], False)"
proof -
  have "lower (path_suffix ''strings.xml'') = ''.xml''"
    by (simp add: path_suffix_def rfind_def lower_def lower_char_def)
  then have "process_file_rc ''strings.xml'' [''<!--\<newline>'', ''  note\<newline>'', ''-->\<newline>''] =
     ([''<!--\<newline>'', ''  note\<newline>'', ''-->\<newline>''], False)"
    by (simp add: process_file_rc_def LINE_COMMENT_EXTS_def XML_LIKE_EXTS_def
        RE_XML_SINGLE_LINE_COMMENT_def lit_def is_space_def)
  moreover have "remove_full_line_comments [''<!--\<newline>'', ''  note\<newline>'', ''-->\<newline>''] ''.xml'' =
      ([], 3)"
    by (simp add: eval_simps)
  ultimately show ?thesis by simp
qed

text \<open>
  C10. For every extension of the C-like set: when the loop reaches a line with
  \<open>in_block\<close> false, and the line contains \<open>*/\<close> but begins, after leading whitespace,
  neither with \<open>//\<close> nor with \<open>/*\<close>, the loop body appends the line to \<open>result\<close> and
  changes nothing else, so the line is retained as it is and the lines after it are
  treated as those of a file that starts there.
\<close>

theorem stray_closer_retained:
  assumes "ext \<in> CLIKE_EXTS" and "\<not> in_block (clike_state_after before)"
    and "sublist ''*/'' line" and "\<not> begins_with ''//'' line" and "\<not> begins_with ''/*'' line"
  shows "clike_step (clike_state_after before) line =
           (clike_state_after before)\<lparr>result := result (clike_state_after before) @ [line]\<rparr> \<and>
         remove_full_line_comments (before @ line # rest) ext =
           (fst (remove_full_line_comments before ext) @
              line # fst (remove_full_line_comments rest ext),
            snd (remove_full_line_comments before ext) +
              snd (remove_full_line_comments rest ext))"
proof -
  let ?s = "clike_state_after before"
  let ?R = "clike_rule closes_after_opener"
  from assms have step: "clike_step ?s line = ?s\<lparr>result := result ?s @ [line]\<rparr>"
    by (simp add: clike_step_rule clike_rule_def)
  have "foldl clike_step \<lparr>result = [], removed = 0, in_block = False\<rparr> (before @ line # rest) =
        foldl clike_step (clike_step ?s line) rest"
    by (simp add: clike_state_after_def)
  moreover have "(result (foldl clike_step (clike_step ?s line) rest),
                  removed (foldl clike_step (clike_step ?s line) rest)) =
        (result ?s @ line # fst (run_rules ?R False rest),
         removed ?s + snd (run_rules ?R False rest))"
    using foldl_run_rules [of clike_step ?R, OF clike_step_rule, of "clike_step ?s line" rest]
      assms(2)
    by (simp add: step split: prod.splits)
  moreover have "remove_full_line_comments before ext = (result ?s, removed ?s)"
    using assms(1) by (simp add: remove_full_line_comments_def clike_state_after_def Let_def)
  ultimately show ?thesis
    using assms(1) step clike_engine [of ext rest]
    by (simp add: remove_full_line_comments_def Let_def)
qed

theorem stray_closer_retained_witness:
  "''.kt'' \<in> CLIKE_EXTS \<and> \<not> in_block (clike_state_after [''/* a */\<newline>'']) \<and>
   sublist ''*/'' ''x = 1; */\<newline>'' \<and> \<not> begins_with ''//'' ''x = 1; */\<newline>'' \<and>
   \<not> begins_with ''/*'' ''x = 1; */\<newline>'' \<and>
   remove_full_line_comments ([''/* a */\<newline>''] @ ''x = 1; */\<newline>'' # [''// b'', ''y'']) ''.kt'' =
     ([''x = 1; */\<newline>'', ''y''], 2)"
proof -
  have h: "''.kt'' \<in> CLIKE_EXTS" "\<not> in_block (clike_state_after [''/* a */\<newline>''])"
    "sublist ''*/'' ''x = 1; */\<newline>''" "\<not> begins_with ''//'' ''x = 1; */\<newline>''"
    "\<not> begins_with ''/*'' ''x = 1; */\<newline>''"
    by (simp_all add: clike_state_after_def begins_with_def eval_simps)
  have e: "remove_full_line_comments [''/* a */\<newline>''] ''.kt'' = ([], 1)"
    "remove_full_line_comments [''// b'', ''y''] ''.kt'' = ([''y''], 1)"
    by (simp_all add: eval_simps)
  from stray_closer_retained [OF h, of "[''// b'', ''y'']"] h e
  show ?thesis by simp
qed

end
